theory Spec2Isabelle
  imports Main "HOL-Library.Sublist" "HOL-Library.Word"
begin

section \<open>Python values and the operations the program applies to them\<close>

text \<open>
  What \<^verbatim>\<open>response.json()\<close> returns, and what \<^verbatim>\<open>build_tree\<close> builds, are Python values:
  \<^verbatim>\<open>None\<close>, booleans, numbers, strings, lists and dicts with string keys. A number is kept
  as its literal: the program never computes with one. A dict is the list of its items in
  insertion order; a Python dict holds each key once, and lookup takes the first item of
  a key.
\<close>

datatype pyval =
    PNone
  | PBool bool
  | PNum string
  | PStr string
  | PList "pyval list"
  | PDict "(string \<times> pyval) list"

text \<open>
  An exception is a value. \<^verbatim>\<open>TypeError\<close>, \<^verbatim>\<open>KeyError\<close> and \<^verbatim>\<open>AttributeError\<close> are the ones the
  program's own expressions raise; \<open>Other c\<close> is an exception of class \<open>c\<close> raised inside a
  library call (\<^verbatim>\<open>JSONDecodeError\<close>, \<^verbatim>\<open>binascii.Error\<close>, \<^verbatim>\<open>UnicodeDecodeError\<close>, ...).
\<close>

datatype exn = TypeError | KeyError | AttributeError | Other string

text \<open>\<^verbatim>\<open>key in v\<close>: key membership in a dict, element membership in a list, substring test
  in a string; any other value is not iterable.\<close>

fun contains :: "pyval \<Rightarrow> string \<Rightarrow> exn + bool" where
  "contains (PDict kvs) key = Inr (key \<in> set (map fst kvs))"
| "contains (PList xs) key = Inr (PStr key \<in> set xs)"
| "contains (PStr s) key = Inr (sublist key s)"
| "contains PNone key = Inl TypeError"
| "contains (PBool b) key = Inl TypeError"
| "contains (PNum n) key = Inl TypeError"

text \<open>\<^verbatim>\<open>v[key]\<close> with a string key: only a dict can be indexed by a string.\<close>

fun subscript :: "pyval \<Rightarrow> string \<Rightarrow> exn + pyval" where
  "subscript (PDict kvs) key = (case map_of kvs key of None \<Rightarrow> Inl KeyError | Some v \<Rightarrow> Inr v)"
| "subscript (PList xs) key = Inl TypeError"
| "subscript (PStr s) key = Inl TypeError"
| "subscript PNone key = Inl TypeError"
| "subscript (PBool b) key = Inl TypeError"
| "subscript (PNum n) key = Inl TypeError"

text \<open>\<^verbatim>\<open>for item in v\<close>: the elements of a list, the keys of a dict, the characters of a
  string.\<close>

fun iterate :: "pyval \<Rightarrow> exn + pyval list" where
  "iterate (PList xs) = Inr xs"
| "iterate (PDict kvs) = Inr (map (\<lambda>kv. PStr (fst kv)) kvs)"
| "iterate (PStr s) = Inr (map (\<lambda>c. PStr [c]) s)"
| "iterate PNone = Inl TypeError"
| "iterate (PBool b) = Inl TypeError"
| "iterate (PNum n) = Inl TypeError"

text \<open>\<^verbatim>\<open>v.endswith(suffix)\<close>: a method of strings only.\<close>

fun endswith :: "pyval \<Rightarrow> string \<Rightarrow> exn + bool" where
  "endswith (PStr s) sfx = Inr (suffix sfx s)"
| "endswith PNone sfx = Inl AttributeError"
| "endswith (PBool b) sfx = Inl AttributeError"
| "endswith (PNum n) sfx = Inl AttributeError"
| "endswith (PList xs) sfx = Inl AttributeError"
| "endswith (PDict kvs) sfx = Inl AttributeError"

text \<open>\<^verbatim>\<open>str(n)\<close> of an integer, as the f-strings format the status code.\<close>

fun str_nat :: "nat \<Rightarrow> string" where
  "str_nat n = (if n < 10 then [''0123456789'' ! n]
                else str_nat (n div 10) @ [''0123456789'' ! (n mod 10)])"

definition str_int :: "int \<Rightarrow> string" where
  "str_int i = (if i < 0 then ''-'' @ str_nat (nat (- i)) else str_nat (nat i))"

section \<open>The environment: configuration, library calls, the remote API\<close>

type_synonym byte = "8 word"

text \<open>A \<^verbatim>\<open>pandas.DataFrame\<close>; \<^verbatim>\<open>pd.DataFrame()\<close> has no column and no row.\<close>

datatype dataframe = DataFrame (columns: "string list") (rows: "string list list")

definition empty_dataframe :: dataframe where
  "empty_dataframe = DataFrame [] []"

text \<open>A \<^verbatim>\<open>requests.Response\<close>: its status code, and what \<^verbatim>\<open>response.json()\<close> does (it raises
  when the body is not JSON).\<close>

record response =
  status_code :: int
  json :: "exn + pyval"

text \<open>
  Everything the functions read from outside: the secrets (\<^verbatim>\<open>USERNAME\<close>, \<^verbatim>\<open>REPO\<close>,
  \<^verbatim>\<open>BRANCH\<close>), the library calls (\<^verbatim>\<open>urllib.parse.quote\<close>, \<^verbatim>\<open>base64.b64decode\<close>,
  \<^verbatim>\<open>bytes.decode("utf-8")\<close>, \<^verbatim>\<open>pd.read_csv\<close>, \<^verbatim>\<open>pd.read_json\<close>, \<^verbatim>\<open>str\<close> of an exception) and
  the remote API, \<^verbatim>\<open>requests.get(url, headers=HEADERS)\<close>, as the response it gives to each
  URL. The theorems hold for every environment.
\<close>

record env =
  USERNAME :: string
  REPO :: string
  BRANCH :: string
  quote :: "string \<Rightarrow> string"
  b64decode :: "pyval \<Rightarrow> exn + byte list"
  decode_utf8 :: "byte list \<Rightarrow> exn + string"
  read_csv :: "string \<Rightarrow> exn + dataframe"
  read_json :: "string \<Rightarrow> exn + dataframe"
  str_exn :: "exn \<Rightarrow> string"
  requests_get :: "string \<Rightarrow> response"

definition api_url :: "env \<Rightarrow> string \<Rightarrow> string" where
  "api_url E path =
     ''https://api.github.com/repos/'' @ USERNAME E @ ''/'' @ REPO E @ ''/contents/''
       @ quote E path @ ''?ref='' @ BRANCH E"

section \<open>fetch_dataframe\<close>

text \<open>
  A function that calls \<^verbatim>\<open>st.error\<close> returns the messages it reported, in order, beside
  its result; the result is \<open>Inl e\<close> when the exception \<open>e\<close> leaves the function.

  \<open>decode_dataframe\<close> is the body of the second \<^verbatim>\<open>try\<close> of \<^verbatim>\<open>fetch_dataframe\<close> (lines 38 to
  45): \<open>Inl e\<close> is an exception raised inside it, which the \<^verbatim>\<open>except\<close> clause catches.
\<close>

definition decode_dataframe ::
  "env \<Rightarrow> pyval \<Rightarrow> string \<Rightarrow> exn + (string list \<times> dataframe)" where
  "decode_dataframe E data file_path =
     (case subscript data ''content'' of
        Inl e \<Rightarrow> Inl e
      | Inr c \<Rightarrow>
         (case b64decode E c of
            Inl e \<Rightarrow> Inl e
          | Inr bs \<Rightarrow>
             (case decode_utf8 E bs of
                Inl e \<Rightarrow> Inl e
              | Inr decoded \<Rightarrow>
                 (if suffix ''.csv'' file_path then
                    (case read_csv E decoded of Inl e \<Rightarrow> Inl e | Inr df \<Rightarrow> Inr ([], df))
                  else if suffix ''.json'' file_path then
                    (case read_json E decoded of Inl e \<Rightarrow> Inl e | Inr df \<Rightarrow> Inr ([], df))
                  else Inr ([''Unsupported file type: '' @ file_path], empty_dataframe)))))"

text \<open>Lines 23 to 48, on the response of line 21.\<close>

definition fetch_dataframe_on ::
  "env \<Rightarrow> string \<Rightarrow> response \<Rightarrow> string list \<times> (exn + dataframe)" where
  "fetch_dataframe_on E file_path response =
     (if status_code response \<noteq> 200 then
        ([''Failed to fetch '' @ file_path @ '': '' @ str_int (status_code response)],
         Inr empty_dataframe)
      else
       (case json response of
          Inl e \<Rightarrow>
            ([''Failed to parse JSON from '' @ file_path @ '': '' @ str_exn E e],
             Inr empty_dataframe)
        | Inr data \<Rightarrow>
           (case contains data ''content'' of
              Inl e \<Rightarrow> ([], Inl e)
            | Inr found \<Rightarrow>
               (if \<not> found then
                  ([''No content field found in '' @ file_path], Inr empty_dataframe)
                else
                 (case decode_dataframe E data file_path of
                    Inl e \<Rightarrow>
                      ([''Error decoding '' @ file_path @ '': '' @ str_exn E e],
                       Inr empty_dataframe)
                  | Inr (msgs, df) \<Rightarrow> (msgs, Inr df))))))"

definition fetch_dataframe :: "env \<Rightarrow> string \<Rightarrow> string list \<times> (exn + dataframe)" where
  "fetch_dataframe E file_path =
     fetch_dataframe_on E file_path (requests_get E (api_url E file_path))"

section \<open>list_folder and build_tree\<close>

text \<open>Lines 141 to 144, on the response of line 140.\<close>

definition list_folder_on :: "string \<Rightarrow> response \<Rightarrow> string list \<times> (exn + pyval)" where
  "list_folder_on path response =
     (if status_code response \<noteq> 200 then
        ([''Failed to fetch '' @ path @ '': '' @ str_int (status_code response)],
         Inr (PList []))
      else (case json response of Inl e \<Rightarrow> ([], Inl e) | Inr v \<Rightarrow> ([], Inr v)))"

text \<open>
  \<^verbatim>\<open>build_tree\<close> passes \<^verbatim>\<open>item["path"]\<close> on, whatever value it is, so the argument of
  \<^verbatim>\<open>list_folder\<close> is a Python value; \<^verbatim>\<open>quote\<close> raises \<^verbatim>\<open>TypeError\<close> on anything but a string
  (or bytes, which JSON does not produce), before any request is made.
\<close>

definition list_folder :: "env \<Rightarrow> pyval \<Rightarrow> string list \<times> (exn + pyval)" where
  "list_folder E path =
     (case path of
        PStr p \<Rightarrow> list_folder_on p (requests_get E (api_url E p))
      | _ \<Rightarrow> ([], Inl TypeError))"

text \<open>
  \<^verbatim>\<open>build_tree\<close> recurses into every directory the remote reports, and the remote decides
  how deep that goes: the first argument bounds the depth of the recursion, and \<open>None\<close>
  means the bound was reached (on a remote whose listings never end, \<^verbatim>\<open>build_tree\<close> does
  not return). \<open>build_items\<close> is the \<^verbatim>\<open>for\<close> loop of lines 150 to 157 on the items still to
  visit, with the messages reported and the \<^verbatim>\<open>tree\<close> built so far.

  The functions are modelled without their \<^verbatim>\<open>st.cache_data\<close> stores: the remote is a
  fixed function of the URL here, and then a stored result is the result of running the
  body again.
\<close>

fun build_tree :: "nat \<Rightarrow> env \<Rightarrow> pyval \<Rightarrow> (string list \<times> (exn + pyval list)) option"
and build_items ::
  "nat \<Rightarrow> env \<Rightarrow> pyval list \<Rightarrow> string list \<Rightarrow> pyval list
     \<Rightarrow> (string list \<times> (exn + pyval list)) option"
where
  "build_tree 0 E path = None"
| "build_tree (Suc n) E path =
     (case list_folder E path of
        (msgs, Inl e) \<Rightarrow> Some (msgs, Inl e)
      | (msgs, Inr contents) \<Rightarrow>
          (case iterate contents of
             Inl e \<Rightarrow> Some (msgs, Inl e)
           | Inr items \<Rightarrow> build_items n E items msgs []))"
| "build_items n E [] msgs tree = Some (msgs, Inr tree)"
| "build_items n E (item # rest) msgs tree =
     (case subscript item ''name'' of
        Inl e \<Rightarrow> Some (msgs, Inl e)
      | Inr name \<Rightarrow>
         (if name = PStr ''.obsidian'' then build_items n E rest msgs tree
          else
           (case subscript item ''path'' of
              Inl e \<Rightarrow> Some (msgs, Inl e)
            | Inr item_path \<Rightarrow>
               (case subscript item ''type'' of
                  Inl e \<Rightarrow> Some (msgs, Inl e)
                | Inr ty \<Rightarrow>
                   (if ty = PStr ''dir'' then
                      (case build_tree n E item_path of
                         None \<Rightarrow> None
                       | Some (msgs', Inl e) \<Rightarrow> Some (msgs @ msgs', Inl e)
                       | Some (msgs', Inr children) \<Rightarrow>
                           build_items n E rest (msgs @ msgs')
                             (tree @ [PDict [(''id'', item_path), (''name'', name),
                                             (''children'', PList children)]]))
                    else if ty = PStr ''file'' then
                      (case endswith name ''.md'' of
                         Inl e \<Rightarrow> Some (msgs, Inl e)
                       | Inr md \<Rightarrow>
                          (if md then
                             build_items n E rest msgs
                               (tree @ [PDict [(''id'', item_path), (''name'', name),
                                               (''path'', item_path)]])
                           else build_items n E rest msgs tree))
                    else build_items n E rest msgs tree)))))"

section \<open>fetch_note_content\<close>

text \<open>The body of the \<^verbatim>\<open>try\<close> of lines 167 and 168.\<close>

definition decode_note :: "env \<Rightarrow> pyval \<Rightarrow> exn + string" where
  "decode_note E response =
     (case subscript response ''content'' of
        Inl e \<Rightarrow> Inl e
      | Inr c \<Rightarrow> (case b64decode E c of Inl e \<Rightarrow> Inl e | Inr bs \<Rightarrow> decode_utf8 E bs))"

text \<open>Lines 163 to 170, on what \<^verbatim>\<open>requests.get\<close> returned: \<^verbatim>\<open>.json()\<close> is called on it outside
  any \<^verbatim>\<open>try\<close>, and its status code is not read.\<close>

definition fetch_note_content_on :: "env \<Rightarrow> response \<Rightarrow> exn + string" where
  "fetch_note_content_on E r =
     (case json r of
        Inl e \<Rightarrow> Inl e
      | Inr response \<Rightarrow>
         (case contains response ''content'' of
            Inl e \<Rightarrow> Inl e
          | Inr found \<Rightarrow>
             (if \<not> found then Inr ''Could not fetch note content.''
              else
               (case decode_note E response of
                  Inl e \<Rightarrow> Inr (''Error decoding file: '' @ str_exn E e)
                | Inr decoded \<Rightarrow> Inr decoded))))"

definition fetch_note_content :: "env \<Rightarrow> string \<Rightarrow> exn + string" where
  "fetch_note_content E file_path =
     fetch_note_content_on E (requests_get E (api_url E file_path))"

section \<open>The nodes of a tree\<close>

text \<open>
  The tree \<^verbatim>\<open>build_tree\<close> returns is a list of dicts; the nodes below a node are the
  elements of the list under its key \<^verbatim>\<open>children\<close>, when it has one. \<open>tree_nodes\<close> lists every
  node of a tree, at any depth, parents before children and siblings in order.
\<close>

lemma size_map_of:
  "map_of kvs k = Some v \<Longrightarrow> size v < Suc (size_list (size_prod (\<lambda>_. 0) size) kvs)"
  by (induction kvs) (auto split: if_splits)

lemma size_member: "k \<in> set kids \<Longrightarrow> size (k :: pyval) < Suc (size_list size kids)"
  by (induction kids) auto

definition children_of :: "pyval \<Rightarrow> pyval list" where
  "children_of n = (case subscript n ''children'' of Inr (PList kids) \<Rightarrow> kids | _ \<Rightarrow> [])"

lemma children_of_size: "k \<in> set (children_of n) \<Longrightarrow> size k < size n"
proof (cases n)
  case (PDict kvs)
  assume "k \<in> set (children_of n)"
  then obtain kids where m: "map_of kvs ''children'' = Some (PList kids)" and kk: "k \<in> set kids"
    using PDict by (auto simp: children_of_def split: option.splits pyval.splits)
  from size_map_of[OF m] size_member[OF kk] show ?thesis using PDict by simp
qed (simp_all add: children_of_def)

function nodes_of :: "pyval \<Rightarrow> pyval list" where
  "nodes_of n = n # concat (map nodes_of (children_of n))"
  by pat_completeness auto
termination
  by (relation "measure size") (auto simp: children_of_size)

definition tree_nodes :: "pyval list \<Rightarrow> pyval list" where
  "tree_nodes tree = concat (map nodes_of tree)"

text \<open>The keys of a dict, in order (no key for a value that is not a dict).\<close>

fun keys :: "pyval \<Rightarrow> string list" where
  "keys (PDict kvs) = map fst kvs"
| "keys v = []"

text \<open>
  The two shapes of a node, as the dict literals of lines 155 and 157 write them: a
  Folder has exactly the keys \<^verbatim>\<open>id\<close>, \<^verbatim>\<open>name\<close>, \<^verbatim>\<open>children\<close>, a Note exactly \<^verbatim>\<open>id\<close>, \<^verbatim>\<open>name\<close>,
  \<^verbatim>\<open>path\<close>.
\<close>

definition is_folder :: "pyval \<Rightarrow> bool" where
  "is_folder n \<longleftrightarrow> keys n = [''id'', ''name'', ''children'']"

definition is_note :: "pyval \<Rightarrow> bool" where
  "is_note n \<longleftrightarrow> keys n = [''id'', ''name'', ''path'']"

text \<open>The dict literals of lines 155 and 157.\<close>

abbreviation folder_node :: "pyval \<Rightarrow> pyval \<Rightarrow> pyval list \<Rightarrow> pyval" where
  "folder_node p nm kids \<equiv> PDict [(''id'', p), (''name'', nm), (''children'', PList kids)]"

abbreviation note_node :: "pyval \<Rightarrow> pyval \<Rightarrow> pyval" where
  "note_node p nm \<equiv> PDict [(''id'', p), (''name'', nm), (''path'', p)]"

text \<open>The \<^verbatim>\<open>id\<close> of every node of a tree (\<open>Inl KeyError\<close> for a node without one).\<close>

definition node_ids :: "pyval list \<Rightarrow> (exn + pyval) list" where
  "node_ids tree = map (\<lambda>x. subscript x ''id'') (tree_nodes tree)"

text \<open>
  What the data model asks of a node: it is a Folder or a Note; the \<^verbatim>\<open>path\<close> of a Note is its
  \<^verbatim>\<open>id\<close>; the \<^verbatim>\<open>children\<close> of a Folder are what \<^verbatim>\<open>build_tree\<close> returns for its \<^verbatim>\<open>id\<close>.
\<close>

definition well_formed_node :: "env \<Rightarrow> pyval \<Rightarrow> bool" where
  "well_formed_node E x \<longleftrightarrow>
     (is_folder x \<or> is_note x) \<and>
     (is_note x \<longrightarrow> subscript x ''path'' = subscript x ''id'') \<and>
     (is_folder x \<longrightarrow>
        (\<exists>p k m. subscript x ''id'' = Inr p \<and> build_tree k E p = Some (m, Inr (children_of x))))"

section \<open>Listing entries\<close>

text \<open>
  The entries the loop of \<^verbatim>\<open>build_tree\<close> keeps, in the words of the specification: an
  entry is skipped when its name is the reserved directory name; of the others, a
  directory is kept, a file is kept when its name ends with the note extension, and
  anything else is dropped.
\<close>

definition kept :: "pyval \<Rightarrow> bool" where
  "kept item \<longleftrightarrow>
     subscript item ''name'' \<noteq> Inr (PStr ''.obsidian'') \<and>
     (subscript item ''type'' = Inr (PStr ''dir'') \<or>
      subscript item ''type'' = Inr (PStr ''file'') \<and>
      (\<exists>s. subscript item ''name'' = Inr (PStr s) \<and> suffix ''.md'' s))"

text \<open>
  The \<^verbatim>\<open>path\<close> of every entry of every listing that is reachable from a path through
  entries of type \<^verbatim>\<open>dir\<close>, down to a depth, in the order \<^verbatim>\<open>build_tree\<close> meets them: what
  the backing listings report.
\<close>

fun reported_paths :: "nat \<Rightarrow> env \<Rightarrow> pyval \<Rightarrow> pyval list"
and reported_items :: "nat \<Rightarrow> env \<Rightarrow> pyval list \<Rightarrow> pyval list"
where
  "reported_paths 0 E path = []"
| "reported_paths (Suc n) E path =
     (case snd (list_folder E path) of
        Inl e \<Rightarrow> []
      | Inr contents \<Rightarrow>
         (case iterate contents of Inl e \<Rightarrow> [] | Inr items \<Rightarrow> reported_items n E items))"
| "reported_items n E [] = []"
| "reported_items n E (item # rest) =
     (case subscript item ''path'' of
        Inl e \<Rightarrow> reported_items n E rest
      | Inr item_path \<Rightarrow>
          item_path #
          (if subscript item ''type'' = Inr (PStr ''dir'') then reported_paths n E item_path
           else [])
          @ reported_items n E rest)"

text \<open>An entry that is a note: a file whose name is a string that ends with the note
  extension, with a path.\<close>

definition md_file :: "pyval \<Rightarrow> pyval \<Rightarrow> string \<Rightarrow> bool" where
  "md_file item p s \<longleftrightarrow>
     subscript item ''name'' = Inr (PStr s) \<and> suffix ''.md'' s \<and>
     subscript item ''path'' = Inr p \<and> subscript item ''type'' = Inr (PStr ''file'')"

text \<open>The value under a key of an entry (\<^verbatim>\<open>None\<close> when the entry has none).\<close>

definition field :: "pyval \<Rightarrow> string \<Rightarrow> pyval" where
  "field item key = (case subscript item key of Inr v \<Rightarrow> v | Inl e \<Rightarrow> PNone)"

text \<open>A ContentItem of the data model: a dict with a name that is a string, a path and a
  type.\<close>

definition content_item :: "pyval \<Rightarrow> bool" where
  "content_item item \<longleftrightarrow>
     (case subscript item ''name'' of Inr (PStr s) \<Rightarrow> True | _ \<Rightarrow> False) \<and>
     (case subscript item ''path'' of Inr p \<Rightarrow> True | Inl e \<Rightarrow> False) \<and>
     (case subscript item ''type'' of Inr t \<Rightarrow> True | Inl e \<Rightarrow> False)"

text \<open>
  A path is well listed down to a depth when its listing is a list of ContentItems and
  the path of each directory that is kept is well listed down to the depth below. (A
  response with a status other than 200 counts as the empty listing, as \<^verbatim>\<open>list_folder\<close> has
  it.)
\<close>

fun well_listed :: "nat \<Rightarrow> env \<Rightarrow> pyval \<Rightarrow> bool" where
  "well_listed 0 E path = False"
| "well_listed (Suc n) E path =
     (case snd (list_folder E path) of
        Inr (PList items) \<Rightarrow>
          (\<forall>item\<in>set items.
             content_item item \<and>
             (kept item \<and> subscript item ''type'' = Inr (PStr ''dir'')
                \<longrightarrow> well_listed n E (field item ''path'')))
      | _ \<Rightarrow> False)"

text \<open>
  The tree in the words of the specification (section 4.2): the entries of the listing
  that are kept, in the order of the listing, a directory as a Folder whose children are
  the tree of its path, a file as a Note.
\<close>

fun spec_tree :: "nat \<Rightarrow> env \<Rightarrow> pyval \<Rightarrow> pyval list" where
  "spec_tree 0 E path = []"
| "spec_tree (Suc n) E path =
     (case snd (list_folder E path) of
        Inr (PList items) \<Rightarrow>
          map (\<lambda>item.
                 if subscript item ''type'' = Inr (PStr ''dir'')
                 then folder_node (field item ''path'') (field item ''name'')
                        (spec_tree n E (field item ''path''))
                 else note_node (field item ''path'') (field item ''name''))
              (filter kept items)
      | _ \<Rightarrow> [])"

definition spec_node :: "nat \<Rightarrow> env \<Rightarrow> pyval \<Rightarrow> pyval" where
  "spec_node n E item =
     (if subscript item ''type'' = Inr (PStr ''dir'')
      then folder_node (field item ''path'') (field item ''name'') (spec_tree n E (field item ''path''))
      else note_node (field item ''path'') (field item ''name''))"

section \<open>Memoization\<close>






section \<open>A sample environment\<close>

text \<open>
  A concrete environment, for the instances below: a remote given as a table from URLs to
  responses (any other URL answers 404 with the API's error body), \<^verbatim>\<open>quote\<close> on paths of
  unreserved characters, and library calls that know one payload, \<^verbatim>\<open>aGk=\<close>, the bytes of
  \<^verbatim>\<open>hi\<close>.
\<close>

definition sample_b64decode :: "pyval \<Rightarrow> exn + byte list" where
  "sample_b64decode v =
     (case v of
        PStr s \<Rightarrow> if s = ''aGk='' then Inr [104, 105] else Inl (Other ''binascii.Error'')
      | _ \<Rightarrow> Inl TypeError)"

definition sample_decode_utf8 :: "byte list \<Rightarrow> exn + string" where
  "sample_decode_utf8 bs =
     (if bs = [104, 105] then Inr ''hi'' else Inl (Other ''UnicodeDecodeError''))"

fun sample_str_exn :: "exn \<Rightarrow> string" where
  "sample_str_exn TypeError = ''TypeError''"
| "sample_str_exn KeyError = ''KeyError''"
| "sample_str_exn AttributeError = ''AttributeError''"
| "sample_str_exn (Other c) = c"

definition not_found :: response where
  "not_found = \<lparr>status_code = 404, json = Inr (PDict [(''message'', PStr ''Not Found'')])\<rparr>"

definition sample_env :: "(string \<times> response) list \<Rightarrow> env" where
  "sample_env remote =
     \<lparr>USERNAME = ''jive'', REPO = ''vault'', BRANCH = ''main'',
      quote = (\<lambda>s. s),
      b64decode = sample_b64decode,
      decode_utf8 = sample_decode_utf8,
      read_csv = (\<lambda>s. Inl (Other ''ParserError'')),
      read_json = (\<lambda>s. Inl (Other ''ValueError'')),
      str_exn = sample_str_exn,
      requests_get = (\<lambda>url. case map_of remote url of Some r \<Rightarrow> r | None \<Rightarrow> not_found)\<rparr>"

definition sample_url :: "string \<Rightarrow> string" where
  "sample_url path = ''https://api.github.com/repos/jive/vault/contents/'' @ path @ ''?ref=main''"

definition ok :: "pyval \<Rightarrow> response" where
  "ok body = \<lparr>status_code = 200, json = Inr body\<rparr>"

definition entry :: "string \<Rightarrow> string \<Rightarrow> string \<Rightarrow> pyval" where
  "entry name path ty = PDict [(''name'', PStr name), (''path'', PStr path), (''type'', PStr ty)]"

text \<open>
  A vault: the root \<^verbatim>\<open>notes\<close> lists the reserved directory, a note, an image, a directory
  with one note and an empty directory; \<^verbatim>\<open>notes/a.md\<close> is a file whose content is the payload.
\<close>

definition vault :: "(string \<times> response) list" where
  "vault =
     [(sample_url ''notes'',
       ok (PList [entry ''.obsidian'' ''notes/.obsidian'' ''dir'',
                  entry ''a.md'' ''notes/a.md'' ''file'',
                  entry ''img.png'' ''notes/img.png'' ''file'',
                  entry ''sub'' ''notes/sub'' ''dir'',
                  entry ''empty'' ''notes/empty'' ''dir''])),
      (sample_url ''notes/.obsidian'',
       ok (PList [entry ''app.json'' ''notes/.obsidian/app.json'' ''file''])),
      (sample_url ''notes/sub'', ok (PList [entry ''b.md'' ''notes/sub/b.md'' ''file''])),
      (sample_url ''notes/empty'', ok (PList [])),
      (sample_url ''notes/a.md'',
       ok (PDict [(''name'', PStr ''a.md''), (''path'', PStr ''notes/a.md''),
                  (''type'', PStr ''file''), (''content'', PStr ''aGk='')]))]"

text \<open>A response whose body is not JSON: the page of a gateway that failed.\<close>

definition bad_gateway :: response where
  "bad_gateway = \<lparr>status_code = 502, json = Inl (Other ''JSONDecodeError'')\<rparr>"

text \<open>The tree \<^verbatim>\<open>build_tree\<close> returns for the vault.\<close>

definition vault_tree :: "pyval list" where
  "vault_tree =
     [note_node (PStr ''notes/a.md'') (PStr ''a.md''),
      folder_node (PStr ''notes/sub'') (PStr ''sub'')
        [note_node (PStr ''notes/sub/b.md'') (PStr ''b.md'')],
      folder_node (PStr ''notes/empty'') (PStr ''empty'') []]"

text \<open>A root that lists the reserved directory only, and its listing is empty.\<close>

definition hidden_only :: "(string \<times> response) list" where
  "hidden_only =
     [(sample_url ''notes'', ok (PList [entry ''.obsidian'' ''notes/.obsidian'' ''dir''])),
      (sample_url ''notes/.obsidian'', ok (PList []))]"

text \<open>A root that lists three notes, not in alphabetical order, and the tree for it.\<close>

definition three_notes :: "(string \<times> response) list" where
  "three_notes =
     [(sample_url ''notes'',
       ok (PList [entry ''z.md'' ''notes/z.md'' ''file'', entry ''a.md'' ''notes/a.md'' ''file'',
                  entry ''m.md'' ''notes/m.md'' ''file'']))]"

definition three_notes_tree :: "pyval list" where
  "three_notes_tree =
     [note_node (PStr ''notes/z.md'') (PStr ''z.md''),
      note_node (PStr ''notes/a.md'') (PStr ''a.md''),
      note_node (PStr ''notes/m.md'') (PStr ''m.md'')]"

text \<open>
  A root that lists, in this order, the reserved directory, a note, an image, an entry
  that is neither a file nor a directory, a directory with one note, and a second note
  whose name sorts before the first; and the tree for it.
\<close>

definition mixed :: "(string \<times> response) list" where
  "mixed =
     [(sample_url ''notes'',
       ok (PList [entry ''.obsidian'' ''notes/.obsidian'' ''dir'',
                  entry ''z.md'' ''notes/z.md'' ''file'',
                  entry ''img.png'' ''notes/img.png'' ''file'',
                  entry ''themes'' ''notes/themes'' ''submodule'',
                  entry ''sub'' ''notes/sub'' ''dir'',
                  entry ''a.md'' ''notes/a.md'' ''file''])),
      (sample_url ''notes/sub'', ok (PList [entry ''b.md'' ''notes/sub/b.md'' ''file'']))]"

definition mixed_tree :: "pyval list" where
  "mixed_tree =
     [note_node (PStr ''notes/z.md'') (PStr ''z.md''),
      folder_node (PStr ''notes/sub'') (PStr ''sub'')
        [note_node (PStr ''notes/sub/b.md'') (PStr ''b.md'')],
      note_node (PStr ''notes/a.md'') (PStr ''a.md'')]"




section \<open>Facts about the operations on values\<close>

lemma subscript_Inr_contains: "subscript data key = Inr c \<Longrightarrow> contains data key = Inr True"
  by (cases data) (auto split: option.splits dest: map_of_SomeD intro: rev_image_eqI)



lemma sample_get_missing: "requests_get (sample_env []) url = not_found"
  by (simp add: sample_env_def)

section \<open>fetch_note_content on a response without content\<close>

text \<open>
  C4. When the body of the response is a JSON object that has no \<^verbatim>\<open>content\<close> key,
  \<^verbatim>\<open>fetch_note_content\<close> returns the string \<^verbatim>\<open>Could not fetch note content.\<close>, whatever the
  path, the status code and the rest of the object are; no exception leaves the call.
\<close>

theorem note_without_content_is_sentinel:
  assumes "json (requests_get E (api_url E file_path)) = Inr (PDict kvs)"
      and "''content'' \<notin> fst ` set kvs"
  shows "fetch_note_content E file_path = Inr ''Could not fetch note content.''"
  using assms by (simp add: fetch_note_content_def fetch_note_content_on_def)

text \<open>The instance: a note that is not in the repository; the API answers 404 with an
  object that holds a message only.\<close>

theorem note_without_content_is_sentinel_witness:
  "json (requests_get (sample_env []) (api_url (sample_env []) ''notes/gone.md''))
     = Inr (PDict [(''message'', PStr ''Not Found'')])
   \<and> ''content'' \<notin> fst ` set [(''message'', PStr ''Not Found'')]
   \<and> fetch_note_content (sample_env []) ''notes/gone.md'' = Inr ''Could not fetch note content.''"
proof -
  have a: "json (requests_get (sample_env []) (api_url (sample_env []) ''notes/gone.md''))
             = Inr (PDict [(''message'', PStr ''Not Found'')])"
    by (simp add: sample_get_missing not_found_def)
  have b: "''content'' \<notin> fst ` set [(''message'', PStr ''Not Found'')]"
    by simp
  from note_without_content_is_sentinel[OF a b] a b show ?thesis
    by simp
qed

section \<open>Which exceptions leave the functions\<close>

text \<open>
  \<^verbatim>\<open>fetch_dataframe\<close> calls \<^verbatim>\<open>response.json()\<close> and decodes inside \<^verbatim>\<open>try\<close> blocks: a body that is
  not JSON, a payload that is not base64 and bytes that are not UTF-8 each end in a
  reported message and an empty dataframe.
\<close>

lemma fetch_dataframe_malformed_body:
  assumes "status_code (requests_get E (api_url E file_path)) = 200"
      and "json (requests_get E (api_url E file_path)) = Inl e"
  shows "fetch_dataframe E file_path
           = ([''Failed to parse JSON from '' @ file_path @ '': '' @ str_exn E e],
              Inr empty_dataframe)"
  using assms by (simp add: fetch_dataframe_def fetch_dataframe_on_def)

lemma fetch_dataframe_bad_base64:
  assumes "status_code (requests_get E (api_url E file_path)) = 200"
      and "json (requests_get E (api_url E file_path)) = Inr data"
      and "subscript data ''content'' = Inr c"
      and "b64decode E c = Inl e"
  shows "fetch_dataframe E file_path
           = ([''Error decoding '' @ file_path @ '': '' @ str_exn E e], Inr empty_dataframe)"
  using assms subscript_Inr_contains[OF assms(3)]
  by (simp add: fetch_dataframe_def fetch_dataframe_on_def decode_dataframe_def)

lemma fetch_dataframe_bad_utf8:
  assumes "status_code (requests_get E (api_url E file_path)) = 200"
      and "json (requests_get E (api_url E file_path)) = Inr data"
      and "subscript data ''content'' = Inr c"
      and "b64decode E c = Inr bs"
      and "decode_utf8 E bs = Inl e"
  shows "fetch_dataframe E file_path
           = ([''Error decoding '' @ file_path @ '': '' @ str_exn E e], Inr empty_dataframe)"
  using assms subscript_Inr_contains[OF assms(3)]
  by (simp add: fetch_dataframe_def fetch_dataframe_on_def decode_dataframe_def)

text \<open>The one exception that leaves \<^verbatim>\<open>fetch_dataframe\<close>: the \<^verbatim>\<open>TypeError\<close> of
  \<^verbatim>\<open>"content" not in data\<close> (line 33, outside the \<^verbatim>\<open>try\<close> blocks) when the body is the JSON
  of \<^verbatim>\<open>null\<close>, of a boolean or of a number.\<close>

lemma fetch_dataframe_raises_iff:
  "snd (fetch_dataframe E file_path) = Inl e \<longleftrightarrow>
     status_code (requests_get E (api_url E file_path)) = 200 \<and> e = TypeError \<and>
     json (requests_get E (api_url E file_path))
       \<in> {Inr PNone} \<union> range (\<lambda>b. Inr (PBool b)) \<union> range (\<lambda>n. Inr (PNum n))"
  apply (simp add: fetch_dataframe_def fetch_dataframe_on_def split: sum.splits prod.splits)
  apply (auto elim!: contains.elims)
  done

text \<open>\<^verbatim>\<open>list_folder\<close> returns \<^verbatim>\<open>response.json()\<close> outside any \<^verbatim>\<open>try\<close> (line 144): on a 200 response
  whose body is not JSON the exception leaves \<^verbatim>\<open>list_folder\<close>, and \<^verbatim>\<open>build_tree\<close> with it.\<close>

lemma list_folder_raises_on_malformed_body:
  assumes "status_code (requests_get E (api_url E p)) = 200"
      and "json (requests_get E (api_url E p)) = Inl e"
  shows "list_folder E (PStr p) = ([], Inl e)
       \<and> build_tree (Suc n) E (PStr p) = Some ([], Inl e)"
  using assms by (simp add: list_folder_def list_folder_on_def)

text \<open>
  C1. The claim is that no response makes \<^verbatim>\<open>fetch_dataframe\<close>, \<^verbatim>\<open>build_tree\<close> or
  \<^verbatim>\<open>fetch_note_content\<close> raise. \<^verbatim>\<open>fetch_note_content\<close> calls \<^verbatim>\<open>.json()\<close> on the response outside
  its \<^verbatim>\<open>try\<close> (line 163): for the note \<^verbatim>\<open>notes/a.md\<close>, when a gateway answers 502 with a page
  that is not JSON, the \<^verbatim>\<open>JSONDecodeError\<close> leaves the call instead of a sentinel or an
  error description.
\<close>

theorem note_fetch_raises_on_malformed_body:
  "fetch_note_content (sample_env [(sample_url ''notes/a.md'', bad_gateway)]) ''notes/a.md''
     = Inl (Other ''JSONDecodeError'')"
  by (simp add: fetch_note_content_def fetch_note_content_on_def sample_env_def api_url_def
      sample_url_def bad_gateway_def)

section \<open>A response with a status other than 200\<close>




section \<open>A file that is neither CSV nor JSON\<close>

lemma vault_a_md:
  "requests_get (sample_env vault) (api_url (sample_env vault) ''notes/a.md'')
     = ok (PDict [(''name'', PStr ''a.md''), (''path'', PStr ''notes/a.md''),
                  (''type'', PStr ''file''), (''content'', PStr ''aGk='')])"
  by (simp add: sample_env_def api_url_def vault_def sample_url_def)

text \<open>
  C10. When the path ends in neither \<^verbatim>\<open>.csv\<close> nor \<^verbatim>\<open>.json\<close>, the response has status 200, its
  body has a \<^verbatim>\<open>content\<close> field, and the base64 and the UTF-8 decoding of it succeed,
  \<^verbatim>\<open>fetch_dataframe\<close> reports \<^verbatim>\<open>Unsupported file type\<close> with the path and returns the empty
  dataframe: the decoded text is dropped.
\<close>

theorem unsupported_file_type:
  assumes "status_code (requests_get E (api_url E file_path)) = 200"
      and "json (requests_get E (api_url E file_path)) = Inr data"
      and "subscript data ''content'' = Inr c"
      and "b64decode E c = Inr bs"
      and "decode_utf8 E bs = Inr decoded"
      and "\<not> suffix ''.csv'' file_path"
      and "\<not> suffix ''.json'' file_path"
  shows "fetch_dataframe E file_path
           = ([''Unsupported file type: '' @ file_path], Inr empty_dataframe)"
  using assms subscript_Inr_contains[OF assms(3)]
  by (simp add: fetch_dataframe_def fetch_dataframe_on_def decode_dataframe_def)

text \<open>The instance: the note \<^verbatim>\<open>notes/a.md\<close> of the vault, whose content decodes to \<^verbatim>\<open>hi\<close>.\<close>

theorem unsupported_file_type_witness:
  "status_code (requests_get (sample_env vault) (api_url (sample_env vault) ''notes/a.md'')) = 200
   \<and> b64decode (sample_env vault) (PStr ''aGk='') = Inr [104, 105]
   \<and> decode_utf8 (sample_env vault) [104, 105] = Inr ''hi''
   \<and> \<not> suffix ''.csv'' ''notes/a.md'' \<and> \<not> suffix ''.json'' ''notes/a.md''
   \<and> fetch_dataframe (sample_env vault) ''notes/a.md''
        = ([''Unsupported file type: notes/a.md''], Inr empty_dataframe)"
proof -
  let ?E = "sample_env vault"
  let ?data = "PDict [(''name'', PStr ''a.md''), (''path'', PStr ''notes/a.md''),
                  (''type'', PStr ''file''), (''content'', PStr ''aGk='')]"
  have a: "status_code (requests_get ?E (api_url ?E ''notes/a.md'')) = 200"
    by (simp add: vault_a_md ok_def)
  have b: "json (requests_get ?E (api_url ?E ''notes/a.md'')) = Inr ?data"
    by (simp add: vault_a_md ok_def)
  have c: "subscript ?data ''content'' = Inr (PStr ''aGk='')"
    by simp
  have d: "b64decode ?E (PStr ''aGk='') = Inr [104, 105]"
    by (simp add: sample_env_def sample_b64decode_def)
  have e: "decode_utf8 ?E [104, 105] = Inr ''hi''"
    by (simp add: sample_env_def sample_decode_utf8_def)
  have f: "\<not> suffix ''.csv'' ''notes/a.md''"
    by (simp add: suffix_to_prefix)
  have g: "\<not> suffix ''.json'' ''notes/a.md''"
    by (simp add: suffix_to_prefix)
  from unsupported_file_type[OF a b c d e f g] a d e f g show ?thesis
    by simp
qed

section \<open>How build_tree runs\<close>

declare nodes_of.simps [simp del]

lemma nodes_of_folder: "nodes_of (folder_node p nm kids) = folder_node p nm kids # tree_nodes kids"
  by (subst nodes_of.simps) (simp add: children_of_def tree_nodes_def)

lemma nodes_of_note: "nodes_of (note_node p nm) = [note_node p nm]"
  by (subst nodes_of.simps) (simp add: children_of_def)

lemma tree_nodes_Nil: "tree_nodes [] = []"
  by (simp add: tree_nodes_def)

lemma tree_nodes_append: "tree_nodes (a @ b) = tree_nodes a @ tree_nodes b"
  by (simp add: tree_nodes_def)

lemma tree_nodes_folder: "tree_nodes [folder_node p nm kids] = folder_node p nm kids # tree_nodes kids"
  by (simp add: tree_nodes_def nodes_of_folder)

lemma tree_nodes_note: "tree_nodes [note_node p nm] = [note_node p nm]"
  by (simp add: tree_nodes_def nodes_of_note)

lemmas tree_nodes_simps = tree_nodes_Nil tree_nodes_append tree_nodes_folder tree_nodes_note

lemma endswith_True: "endswith nm sfx = Inr True \<Longrightarrow> \<exists>s. nm = PStr s \<and> suffix sfx s"
  by (cases nm) auto

text \<open>One turn of the loop that does not raise: the entry is skipped, becomes a Folder,
  becomes a Note, or is dropped.\<close>

lemma build_items_ConsE:
  assumes "build_items n E (item # rest) msgs acc = Some (msgs', Inr tree)"
  obtains
    (skipped) "subscript item ''name'' = Inr (PStr ''.obsidian'')"
      "build_items n E rest msgs acc = Some (msgs', Inr tree)"
  | (folder) name p m1 kids where
      "subscript item ''name'' = Inr name" "name \<noteq> PStr ''.obsidian''"
      "subscript item ''path'' = Inr p" "subscript item ''type'' = Inr (PStr ''dir'')"
      "build_tree n E p = Some (m1, Inr kids)"
      "build_items n E rest (msgs @ m1) (acc @ [folder_node p name kids]) = Some (msgs', Inr tree)"
  | (leaf) s p where
      "subscript item ''name'' = Inr (PStr s)" "suffix ''.md'' s"
      "subscript item ''path'' = Inr p" "subscript item ''type'' = Inr (PStr ''file'')"
      "build_items n E rest msgs (acc @ [note_node p (PStr s)]) = Some (msgs', Inr tree)"
  | (dropped) "\<not> kept item" "subscript item ''name'' \<noteq> Inr (PStr ''.obsidian'')"
      "build_items n E rest msgs acc = Some (msgs', Inr tree)"
proof (cases "subscript item ''name''")
  case (Inl e)
  with assms show ?thesis by simp
next
  case nm: (Inr name)
  show ?thesis
  proof (cases "name = PStr ''.obsidian''")
    case True
    with assms nm skipped show ?thesis by simp
  next
    case no: False
    show ?thesis
    proof (cases "subscript item ''path''")
      case (Inl e)
      with assms nm no show ?thesis by simp
    next
      case pa: (Inr p)
      show ?thesis
      proof (cases "subscript item ''type''")
        case (Inl e)
        with assms nm no pa show ?thesis by simp
      next
        case ty: (Inr ty)
        consider (d) "ty = PStr ''dir''" | (f) "ty \<noteq> PStr ''dir''" "ty = PStr ''file''"
          | (o) "ty \<noteq> PStr ''dir''" "ty \<noteq> PStr ''file''" by blast
        then show ?thesis
        proof cases
          case d
          with assms nm no pa ty obtain m1 kids where
            "build_tree n E p = Some (m1, Inr kids)"
            "build_items n E rest (msgs @ m1) (acc @ [folder_node p name kids]) = Some (msgs', Inr tree)"
            by (auto split: option.splits sum.splits)
          with folder nm no pa ty d show ?thesis by simp
        next
          case f
          show ?thesis
          proof (cases "endswith name ''.md''")
            case (Inl e)
            with assms nm no pa ty f show ?thesis by simp
          next
            case (Inr md)
            show ?thesis
            proof (cases md)
              case True
              with Inr have "endswith name ''.md'' = Inr True" by simp
              from endswith_True[OF this] obtain s where s: "name = PStr s" "suffix ''.md'' s"
                by blast
              with assms nm no pa ty f Inr True leaf show ?thesis by simp
            next
              case False
              with Inr have "\<not> (\<exists>s. name = PStr s \<and> suffix ''.md'' s)"
                by (cases name) auto
              with nm ty f have "\<not> kept item" by (simp add: kept_def)
              with assms nm no pa ty f Inr False dropped show ?thesis by simp
            qed
          qed
        next
          case o
          with nm ty have "\<not> kept item" by (simp add: kept_def)
          with assms nm no pa ty o dropped show ?thesis by simp
        qed
      qed
    qed
  qed
qed

lemma build_tree_SucE:
  assumes "build_tree (Suc n) E path = Some (msgs', Inr tree)"
  obtains m0 contents items where
    "list_folder E path = (m0, Inr contents)" "iterate contents = Inr items"
    "build_items n E items m0 [] = Some (msgs', Inr tree)"
  using assms by (auto split: prod.splits sum.splits)

text \<open>A property of nodes that the two dict literals establish holds of every node of the
  tree, at any depth.\<close>

lemma build_items_invariant:
  assumes T: "\<And>path msgs' tree. build_tree n E path = Some (msgs', Inr tree)
                 \<Longrightarrow> \<forall>x\<in>set (tree_nodes tree). good x"
      and F: "\<And>p nm kids m. nm \<noteq> PStr ''.obsidian'' \<Longrightarrow> build_tree n E p = Some (m, Inr kids)
                 \<Longrightarrow> \<forall>x\<in>set (tree_nodes kids). good x \<Longrightarrow> good (folder_node p nm kids)"
      and N: "\<And>p s. suffix ''.md'' s \<Longrightarrow> good (note_node p (PStr s))"
  shows "build_items n E items msgs acc = Some (msgs', Inr tree)
           \<Longrightarrow> \<forall>x\<in>set (tree_nodes acc). good x \<Longrightarrow> \<forall>x\<in>set (tree_nodes tree). good x"
proof (induction items arbitrary: msgs acc)
  case Nil
  then show ?case by simp
next
  case (Cons item rest)
  from Cons.prems(1) show ?case
  proof (cases rule: build_items_ConsE)
    case skipped
    from Cons.IH[OF skipped(2) Cons.prems(2)] show ?thesis .
  next
    case (folder name p m1 kids)
    have "\<forall>x\<in>set (tree_nodes kids). good x"
      using T[OF folder(5)] .
    with F[OF folder(2) folder(5) this] Cons.prems(2)
    have "\<forall>x\<in>set (tree_nodes (acc @ [folder_node p name kids])). good x"
      by (auto simp: tree_nodes_simps)
    from Cons.IH[OF folder(6) this] show ?thesis .
  next
    case (leaf s p)
    from N[OF leaf(2)] Cons.prems(2)
    have "\<forall>x\<in>set (tree_nodes (acc @ [note_node p (PStr s)])). good x"
      by (auto simp: tree_nodes_simps)
    from Cons.IH[OF leaf(5) this] show ?thesis .
  next
    case dropped
    from Cons.IH[OF dropped(3) Cons.prems(2)] show ?thesis .
  qed
qed

lemma build_tree_invariant:
  assumes F: "\<And>p nm kids k m. nm \<noteq> PStr ''.obsidian'' \<Longrightarrow> build_tree k E p = Some (m, Inr kids)
                 \<Longrightarrow> \<forall>x\<in>set (tree_nodes kids). good x \<Longrightarrow> good (folder_node p nm kids)"
      and N: "\<And>p s. suffix ''.md'' s \<Longrightarrow> good (note_node p (PStr s))"
  shows "build_tree n E path = Some (msgs', Inr tree) \<Longrightarrow> \<forall>x\<in>set (tree_nodes tree). good x"
proof (induction n arbitrary: path msgs' tree)
  case 0
  then show ?case by simp
next
  case (Suc n)
  from Suc.prems obtain m0 contents items where
    b: "build_items n E items m0 [] = Some (msgs', Inr tree)"
    by (rule build_tree_SucE)
  have e: "\<forall>x\<in>set (tree_nodes []). good x"
    by (simp add: tree_nodes_simps)
  show ?case
  proof (rule build_items_invariant[where good = good and n = n and E = E, OF _ _ _ b e])
    fix path msgs' tree
    assume "build_tree n E path = Some (msgs', Inr tree)"
    then show "\<forall>x\<in>set (tree_nodes tree). good x"
      by (rule Suc.IH)
  next
    fix p nm kids m
    assume "nm \<noteq> PStr ''.obsidian''" "build_tree n E p = Some (m, Inr kids)"
      "\<forall>x\<in>set (tree_nodes kids). good x"
    then show "good (folder_node p nm kids)"
      by (rule F)
  next
    fix p s
    assume "suffix ''.md'' s"
    then show "good (note_node p (PStr s))"
      by (rule N)
  qed
qed

lemma md_not_reserved: "suffix ''.md'' s \<Longrightarrow> s \<noteq> ''.obsidian''"
  by (auto simp: suffix_to_prefix)

lemma subseq_distinct: "subseq xs ys \<Longrightarrow> distinct ys \<Longrightarrow> distinct xs"
proof (induction rule: list_emb.induct)
  case (list_emb_Cons xs ys y)
  then show ?case by simp
next
  case (list_emb_Cons2 x y xs ys)
  then have "set xs \<subseteq> set ys" by (auto dest: list_emb_set)
  with list_emb_Cons2 show ?case by auto
qed simp

lemma node_ids_Nil: "node_ids [] = []"
  by (simp add: node_ids_def tree_nodes_simps)

lemma node_ids_append: "node_ids (a @ b) = node_ids a @ node_ids b"
  by (simp add: node_ids_def tree_nodes_simps)

lemma node_ids_folder: "node_ids (folder_node p nm kids # new) = Inr p # node_ids kids @ node_ids new"
  using node_ids_append[of "[folder_node p nm kids]" new]
  by (simp add: node_ids_def tree_nodes_simps)

lemma node_ids_note: "node_ids (note_node p nm # new) = Inr p # node_ids new"
  using node_ids_append[of "[note_node p nm]" new]
  by (simp add: node_ids_def tree_nodes_simps)

text \<open>The ids of the nodes, in the order of \<open>tree_nodes\<close>, are among the paths the listings
  reported, in the order they were reported.\<close>

lemma build_items_reported:
  assumes T: "\<And>path msgs' tree. build_tree n E path = Some (msgs', Inr tree)
                 \<Longrightarrow> subseq (node_ids tree) (map Inr (reported_paths n E path))"
  shows "build_items n E items msgs acc = Some (msgs', Inr tree) \<Longrightarrow>
           \<exists>new. tree = acc @ new \<and> subseq (node_ids new) (map Inr (reported_items n E items))"
proof (induction items arbitrary: msgs acc)
  case Nil
  then show ?case by (simp add: node_ids_Nil)
next
  case (Cons item rest)
  from Cons.prems show ?case
  proof (cases rule: build_items_ConsE)
    case skipped
    from Cons.IH[OF skipped(2)] obtain new where
      n: "tree = acc @ new" "subseq (node_ids new) (map Inr (reported_items n E rest))"
      by blast
    have "subseq (node_ids new) (map Inr (reported_items n E (item # rest)))"
      using n(2) by (cases "subscript item ''path''") (auto intro: subseq_drop_many)
    with n(1) show ?thesis by blast
  next
    case (folder name p m1 kids)
    from Cons.IH[OF folder(6)] obtain new where
      n: "tree = (acc @ [folder_node p name kids]) @ new"
         "subseq (node_ids new) (map Inr (reported_items n E rest))"
      by blast
    have k: "subseq (node_ids kids) (map Inr (reported_paths n E p))"
      using T[OF folder(5)] .
    have "subseq (node_ids (folder_node p name kids # new))
            (map Inr (reported_items n E (item # rest)))"
      using folder(3,4) n(2) k by (simp add: node_ids_folder list_emb_append_mono)
    with n(1) show ?thesis
      by (intro exI[of _ "folder_node p name kids # new"]) simp
  next
    case (leaf s p)
    from Cons.IH[OF leaf(5)] obtain new where
      n: "tree = (acc @ [note_node p (PStr s)]) @ new"
         "subseq (node_ids new) (map Inr (reported_items n E rest))"
      by blast
    have "subseq (node_ids (note_node p (PStr s) # new))
            (map Inr (reported_items n E (item # rest)))"
      using leaf(3,4) n(2) by (simp add: node_ids_note)
    with n(1) show ?thesis
      by (intro exI[of _ "note_node p (PStr s) # new"]) simp
  next
    case dropped
    from Cons.IH[OF dropped(3)] obtain new where
      n: "tree = acc @ new" "subseq (node_ids new) (map Inr (reported_items n E rest))"
      by blast
    have "subseq (node_ids new) (map Inr (reported_items n E (item # rest)))"
      using n(2) by (cases "subscript item ''path''") (auto intro: subseq_drop_many list_emb_Cons)
    with n(1) show ?thesis by blast
  qed
qed

lemma build_tree_reported:
  "build_tree n E path = Some (msgs', Inr tree)
     \<Longrightarrow> subseq (node_ids tree) (map Inr (reported_paths n E path))"
proof (induction n arbitrary: path msgs' tree)
  case 0
  then show ?case by simp
next
  case (Suc n)
  from Suc.prems obtain m0 contents items where
    l: "list_folder E path = (m0, Inr contents)" "iterate contents = Inr items" and
    b: "build_items n E items m0 [] = Some (msgs', Inr tree)"
    by (rule build_tree_SucE)
  from build_items_reported[OF Suc.IH b] l show ?case
    by simp
qed

text \<open>The loop appends to the tree, in the order of the listing, one node for each entry
  that is kept; the node has the path and the name of its entry.\<close>

lemma build_items_map_filter:
  "build_items n E items msgs acc = Some (msgs', Inr tree) \<Longrightarrow>
     \<exists>new. tree = acc @ new \<and>
       map (\<lambda>x. (subscript x ''id'', subscript x ''name'')) new
         = map (\<lambda>i. (subscript i ''path'', subscript i ''name'')) (filter kept items)"
proof (induction items arbitrary: msgs acc)
  case Nil
  then show ?case by simp
next
  case (Cons item rest)
  from Cons.prems show ?case
  proof (cases rule: build_items_ConsE)
    case skipped
    then have "\<not> kept item" by (simp add: kept_def)
    with Cons.IH[OF skipped(2)] show ?thesis by simp
  next
    case (folder name p m1 kids)
    then have k: "kept item" by (simp add: kept_def)
    from Cons.IH[OF folder(6)] obtain new where
      "tree = (acc @ [folder_node p name kids]) @ new"
      "map (\<lambda>x. (subscript x ''id'', subscript x ''name'')) new
         = map (\<lambda>i. (subscript i ''path'', subscript i ''name'')) (filter kept rest)"
      by blast
    with k folder(1,3) show ?thesis
      by (intro exI[of _ "folder_node p name kids # new"]) simp
  next
    case (leaf s p)
    then have k: "kept item" by (auto simp: kept_def dest: md_not_reserved)
    from Cons.IH[OF leaf(5)] obtain new where
      "tree = (acc @ [note_node p (PStr s)]) @ new"
      "map (\<lambda>x. (subscript x ''id'', subscript x ''name'')) new
         = map (\<lambda>i. (subscript i ''path'', subscript i ''name'')) (filter kept rest)"
      by blast
    with k leaf(1,3) show ?thesis
      by (intro exI[of _ "note_node p (PStr s) # new"]) simp
  next
    case dropped
    with Cons.IH[OF dropped(3)] show ?thesis by simp
  qed
qed

text \<open>The tree of the vault.\<close>

lemma vault_build:
  "build_tree 3 (sample_env vault) (PStr ''notes'') = Some ([], Inr vault_tree)"
  by code_simp

text \<open>The bound only cuts the recursion off: what \<^verbatim>\<open>build_tree\<close> returns within a bound is what
  it returns within every larger one.\<close>

lemma build_items_more_fuel:
  assumes T: "\<And>path r. build_tree n E path = Some r \<Longrightarrow> build_tree (Suc n) E path = Some r"
  shows "build_items n E items msgs acc = Some r \<Longrightarrow> build_items (Suc n) E items msgs acc = Some r"
proof (induction items arbitrary: msgs acc)
  case Nil
  then show ?case by simp
next
  case (Cons item rest)
  then show ?case
    by (auto split: sum.splits if_splits option.splits prod.splits dest!: T)
qed

lemma build_tree_more_fuel:
  "build_tree n E path = Some r \<Longrightarrow> build_tree (Suc n) E path = Some r"
proof (induction n arbitrary: path r)
  case 0
  then show ?case by simp
next
  case (Suc n)
  from Suc.prems show ?case
    by (auto split: sum.splits prod.splits dest!: build_items_more_fuel[OF Suc.IH, rotated])
qed

lemma build_tree_any_more_fuel:
  "build_tree n E path = Some r \<Longrightarrow> build_tree (n + k) E path = Some r"
proof (induction k)
  case 0
  then show ?case by simp
next
  case (Suc k)
  from build_tree_more_fuel[OF Suc.IH[OF Suc.prems]] show ?case
    by (simp only: add_Suc_right)
qed

section \<open>Instances on the vault\<close>

lemma vault_listing:
  "list_folder (sample_env vault) (PStr ''notes'')
     = ([], Inr (PList [entry ''.obsidian'' ''notes/.obsidian'' ''dir'',
                  entry ''a.md'' ''notes/a.md'' ''file'',
                  entry ''img.png'' ''notes/img.png'' ''file'',
                  entry ''sub'' ''notes/sub'' ''dir'',
                  entry ''empty'' ''notes/empty'' ''dir'']))"
  by code_simp

lemma vault_empty_listing:
  "list_folder (sample_env vault) (PStr ''notes/empty'') = ([], Inr (PList []))"
  by code_simp

lemma vault_nodes:
  "tree_nodes vault_tree =
     [note_node (PStr ''notes/a.md'') (PStr ''a.md''),
      folder_node (PStr ''notes/sub'') (PStr ''sub'')
        [note_node (PStr ''notes/sub/b.md'') (PStr ''b.md'')],
      note_node (PStr ''notes/sub/b.md'') (PStr ''b.md''),
      folder_node (PStr ''notes/empty'') (PStr ''empty'') []]"
  by (simp add: vault_tree_def tree_nodes_def nodes_of_folder nodes_of_note)

lemma vault_reported:
  "reported_paths 3 (sample_env vault) (PStr ''notes'')
     = [PStr ''notes/.obsidian'', PStr ''notes/.obsidian/app.json'', PStr ''notes/a.md'',
        PStr ''notes/img.png'', PStr ''notes/sub'', PStr ''notes/sub/b.md'', PStr ''notes/empty'']"
  by code_simp

lemma vault_ids:
  "node_ids vault_tree
     = [Inr (PStr ''notes/a.md''), Inr (PStr ''notes/sub''), Inr (PStr ''notes/sub/b.md''),
        Inr (PStr ''notes/empty'')]"
  by (simp add: node_ids_def vault_nodes)

lemma three_notes_listing:
  "list_folder (sample_env three_notes) (PStr ''notes'')
     = ([], Inr (PList [entry ''z.md'' ''notes/z.md'' ''file'', entry ''a.md'' ''notes/a.md'' ''file'',
                  entry ''m.md'' ''notes/m.md'' ''file'']))"
  by code_simp

lemma md_file_entry: "suffix ''.md'' s \<Longrightarrow> md_file (entry s p ''file'') (PStr p) s"
  by (simp add: md_file_def entry_def)

lemma is_note_note_node: "is_note (note_node p nm)"
  by (simp add: is_note_def)

lemma is_folder_folder_node: "is_folder (folder_node p nm kids)"
  by (simp add: is_folder_def)

lemma not_note_folder_node: "\<not> is_note (folder_node p nm kids)"
  by (simp add: is_note_def)

lemma not_folder_note_node: "\<not> is_folder (note_node p nm)"
  by (simp add: is_folder_def)

lemma children_of_folder_node: "children_of (folder_node p nm kids) = kids"
  by (simp add: children_of_def)

section \<open>The reserved directory\<close>

text \<open>
  C2. Whatever the remote and the root path are, when \<^verbatim>\<open>build_tree\<close> returns a tree, no node of
  the tree, at any depth, has the name \<^verbatim>\<open>.obsidian\<close>; and a turn of the loop on an entry whose
  name is exactly \<^verbatim>\<open>.obsidian\<close> goes on to the next entry with the tree unchanged (without
  reading the entry's path or type, and without listing it).
\<close>

theorem reserved_directory_skipped:
  "(build_tree n E path = Some (msgs', Inr tree) \<longrightarrow>
      (\<forall>x\<in>set (tree_nodes tree). subscript x ''name'' \<noteq> Inr (PStr ''.obsidian'')))
   \<and> (subscript item ''name'' = Inr (PStr ''.obsidian'') \<longrightarrow>
      build_items k E (item # rest) msgs acc = build_items k E rest msgs acc)"
proof (intro conjI impI)
  assume "build_tree n E path = Some (msgs', Inr tree)"
  then show "\<forall>x\<in>set (tree_nodes tree). subscript x ''name'' \<noteq> Inr (PStr ''.obsidian'')"
    by (rule build_tree_invariant[rotated 2]) (auto dest: md_not_reserved)
next
  assume "subscript item ''name'' = Inr (PStr ''.obsidian'')"
  then show "build_items k E (item # rest) msgs acc = build_items k E rest msgs acc"
    by simp
qed

text \<open>The instance: the vault, whose root lists \<^verbatim>\<open>.obsidian\<close> first.\<close>

theorem reserved_directory_skipped_witness:
  "build_tree 3 (sample_env vault) (PStr ''notes'') = Some ([], Inr vault_tree)
   \<and> folder_node (PStr ''notes/sub'') (PStr ''sub'')
        [note_node (PStr ''notes/sub/b.md'') (PStr ''b.md'')] \<in> set (tree_nodes vault_tree)
   \<and> subscript (folder_node (PStr ''notes/sub'') (PStr ''sub'')
        [note_node (PStr ''notes/sub/b.md'') (PStr ''b.md'')]) ''name'' \<noteq> Inr (PStr ''.obsidian'')
   \<and> subscript (entry ''.obsidian'' ''notes/.obsidian'' ''dir'') ''name'' = Inr (PStr ''.obsidian'')
   \<and> build_items 2 (sample_env vault)
        [entry ''.obsidian'' ''notes/.obsidian'' ''dir'', entry ''a.md'' ''notes/a.md'' ''file''] [] []
      = build_items 2 (sample_env vault) [entry ''a.md'' ''notes/a.md'' ''file''] [] []"
proof -
  let ?E = "sample_env vault"
  let ?item = "entry ''.obsidian'' ''notes/.obsidian'' ''dir''"
  have m: "folder_node (PStr ''notes/sub'') (PStr ''sub'')
        [note_node (PStr ''notes/sub/b.md'') (PStr ''b.md'')] \<in> set (tree_nodes vault_tree)"
    by (simp add: vault_nodes)
  have nm: "subscript ?item ''name'' = Inr (PStr ''.obsidian'')"
    by (simp add: entry_def)
  from reserved_directory_skipped[of 3 ?E "PStr ''notes''" "[]" vault_tree ?item 2
      "[entry ''a.md'' ''notes/a.md'' ''file'']" "[]" "[]"] vault_build m nm
  show ?thesis
    by blast
qed

section \<open>Files that are not notes\<close>

text \<open>
  C3. When \<^verbatim>\<open>build_tree\<close> returns a tree, every Note of the tree, at any depth, has a name that
  is a string ending with \<^verbatim>\<open>.md\<close>; and a turn of the loop on an entry of type \<^verbatim>\<open>file\<close> whose
  name is a string that does not end with \<^verbatim>\<open>.md\<close> goes on to the next entry with the tree
  unchanged, raising nothing.
\<close>

theorem notes_end_with_md:
  "(build_tree n E path = Some (msgs', Inr tree) \<longrightarrow>
      (\<forall>x\<in>set (tree_nodes tree).
         is_note x \<longrightarrow> (\<exists>s. subscript x ''name'' = Inr (PStr s) \<and> suffix ''.md'' s)))
   \<and> (subscript item ''name'' = Inr (PStr s) \<longrightarrow> \<not> suffix ''.md'' s \<longrightarrow>
      subscript item ''path'' = Inr p \<longrightarrow> subscript item ''type'' = Inr (PStr ''file'') \<longrightarrow>
      build_items k E (item # rest) msgs acc = build_items k E rest msgs acc)"
proof (intro conjI impI)
  assume "build_tree n E path = Some (msgs', Inr tree)"
  then show "\<forall>x\<in>set (tree_nodes tree).
         is_note x \<longrightarrow> (\<exists>s. subscript x ''name'' = Inr (PStr s) \<and> suffix ''.md'' s)"
    by (rule build_tree_invariant[rotated 2]) (simp_all add: not_note_folder_node)
next
  assume "subscript item ''name'' = Inr (PStr s)" "\<not> suffix ''.md'' s"
    "subscript item ''path'' = Inr p" "subscript item ''type'' = Inr (PStr ''file'')"
  then show "build_items k E (item # rest) msgs acc = build_items k E rest msgs acc"
    by simp
qed

text \<open>The instance: the vault, with the note \<^verbatim>\<open>b.md\<close> and the image \<^verbatim>\<open>img.png\<close>.\<close>

theorem notes_end_with_md_witness:
  "build_tree 3 (sample_env vault) (PStr ''notes'') = Some ([], Inr vault_tree)
   \<and> note_node (PStr ''notes/sub/b.md'') (PStr ''b.md'') \<in> set (tree_nodes vault_tree)
   \<and> is_note (note_node (PStr ''notes/sub/b.md'') (PStr ''b.md''))
   \<and> subscript (note_node (PStr ''notes/sub/b.md'') (PStr ''b.md'')) ''name'' = Inr (PStr ''b.md'')
   \<and> suffix ''.md'' ''b.md''
   \<and> subscript (entry ''img.png'' ''notes/img.png'' ''file'') ''type'' = Inr (PStr ''file'')
   \<and> \<not> suffix ''.md'' ''img.png''
   \<and> build_items 2 (sample_env vault)
        [entry ''img.png'' ''notes/img.png'' ''file'', entry ''a.md'' ''notes/a.md'' ''file''] [] []
      = build_items 2 (sample_env vault) [entry ''a.md'' ''notes/a.md'' ''file''] [] []"
proof -
  let ?E = "sample_env vault"
  let ?item = "entry ''img.png'' ''notes/img.png'' ''file''"
  let ?x = "note_node (PStr ''notes/sub/b.md'') (PStr ''b.md'')"
  have m: "?x \<in> set (tree_nodes vault_tree)"
    by (simp add: vault_nodes)
  have n: "is_note ?x"
    by (rule is_note_note_node)
  have nm: "subscript ?item ''name'' = Inr (PStr ''img.png'')"
    by (simp add: entry_def)
  have pa: "subscript ?item ''path'' = Inr (PStr ''notes/img.png'')"
    by (simp add: entry_def)
  have ty: "subscript ?item ''type'' = Inr (PStr ''file'')"
    by (simp add: entry_def)
  have ns: "\<not> suffix ''.md'' ''img.png''"
    by (simp add: suffix_to_prefix)
  from notes_end_with_md[of 3 ?E "PStr ''notes''" "[]" vault_tree ?item "''img.png''"
      "PStr ''notes/img.png''" 2 "[entry ''a.md'' ''notes/a.md'' ''file'']" "[]" "[]"]
    vault_build m n nm pa ty ns
  show ?thesis
    by auto
qed

section \<open>The order of the children\<close>

lemma build_items_md_file:
  "md_file item p s \<Longrightarrow>
     build_items k E (item # rest) msgs acc
       = build_items k E rest msgs (acc @ [note_node p (PStr s)])"
  by (auto simp: md_file_def dest: md_not_reserved)

lemma kept_code [code]:
  "kept item \<longleftrightarrow>
     subscript item ''name'' \<noteq> Inr (PStr ''.obsidian'') \<and>
     (subscript item ''type'' = Inr (PStr ''dir'') \<or>
      subscript item ''type'' = Inr (PStr ''file'') \<and>
      (case subscript item ''name'' of Inr (PStr s) \<Rightarrow> suffix ''.md'' s | _ \<Rightarrow> False))"
  by (auto simp: kept_def split: sum.splits pyval.splits)

lemma content_itemE:
  assumes "content_item item"
  obtains s p t where "subscript item ''name'' = Inr (PStr s)" "subscript item ''path'' = Inr p"
    "subscript item ''type'' = Inr t"
  using assms by (auto simp: content_item_def split: sum.splits pyval.splits)

text \<open>On a listing of ContentItems whose kept directories return their trees, the loop
  returns, and appends the node of each kept entry in the order of the listing.\<close>

lemma build_items_spec:
  assumes T: "\<And>p. well_listed n E p \<Longrightarrow> \<exists>m. build_tree n E p = Some (m, Inr (spec_tree n E p))"
  shows "\<forall>item\<in>set items. content_item item \<and>
             (kept item \<and> subscript item ''type'' = Inr (PStr ''dir'')
                \<longrightarrow> well_listed n E (field item ''path''))
         \<Longrightarrow> \<exists>m. build_items n E items msgs acc
                  = Some (m, Inr (acc @ map (spec_node n E) (filter kept items)))"
proof (induction items arbitrary: msgs acc)
  case Nil
  then show ?case by simp
next
  case (Cons item rest)
  from Cons.prems have ci: "content_item item"
    and wl: "kept item \<Longrightarrow> subscript item ''type'' = Inr (PStr ''dir'') \<Longrightarrow> well_listed n E (field item ''path'')"
    and r: "\<forall>item\<in>set rest. content_item item \<and>
             (kept item \<and> subscript item ''type'' = Inr (PStr ''dir'')
                \<longrightarrow> well_listed n E (field item ''path''))"
    by simp_all
  from ci obtain s p t where nm: "subscript item ''name'' = Inr (PStr s)"
    and pa: "subscript item ''path'' = Inr p" and ty: "subscript item ''type'' = Inr t"
    by (rule content_itemE)
  show ?case
  proof (cases "kept item")
    case False
    with nm pa ty have "build_items n E (item # rest) msgs acc = build_items n E rest msgs acc"
      by (auto simp: kept_def)
    with Cons.IH[OF r, of msgs acc] False show ?thesis by simp
  next
    case True
    show ?thesis
    proof (cases "t = PStr ''dir''")
      case d: True
      from wl[OF True] ty d have "well_listed n E p" by (simp add: field_def pa)
      from T[OF this] obtain m where b: "build_tree n E p = Some (m, Inr (spec_tree n E p))" ..
      from True nm have no: "PStr s \<noteq> PStr ''.obsidian''" by (simp add: kept_def)
      have sn: "spec_node n E item = folder_node p (PStr s) (spec_tree n E p)"
        using nm pa ty d by (simp add: spec_node_def field_def)
      from nm pa ty d b no have
        "build_items n E (item # rest) msgs acc
           = build_items n E rest (msgs @ m) (acc @ [spec_node n E item])"
        by (simp add: sn)
      with Cons.IH[OF r, of "msgs @ m" "acc @ [spec_node n E item]"] True show ?thesis by simp
    next
      case nd: False
      with True nm ty have f: "t = PStr ''file''" and md: "suffix ''.md'' s" and no: "s \<noteq> ''.obsidian''"
        by (auto simp: kept_def)
      have sn: "spec_node n E item = note_node p (PStr s)"
        using nm pa ty nd by (simp add: spec_node_def field_def)
      from nm pa ty f md no have
        "build_items n E (item # rest) msgs acc
           = build_items n E rest msgs (acc @ [spec_node n E item])"
        by (simp add: sn)
      with Cons.IH[OF r, of msgs "acc @ [spec_node n E item]"] True show ?thesis by simp
    qed
  qed
qed

lemma build_tree_spec:
  "well_listed n E path \<Longrightarrow> \<exists>m. build_tree n E path = Some (m, Inr (spec_tree n E path))"
proof (induction n arbitrary: path)
  case 0
  then show ?case by simp
next
  case (Suc n)
  from Suc.prems obtain items where l: "snd (list_folder E path) = Inr (PList items)"
    and w: "\<forall>item\<in>set items. content_item item \<and>
             (kept item \<and> subscript item ''type'' = Inr (PStr ''dir'')
                \<longrightarrow> well_listed n E (field item ''path''))"
    by (auto split: sum.splits pyval.splits)
  obtain m0 where lf: "list_folder E path = (m0, Inr (PList items))"
    using l by (cases "list_folder E path") simp
  from build_items_spec[OF Suc.IH w, of m0 "[]"] obtain m where
    "build_items n E items m0 [] = Some (m, Inr (map (spec_node n E) (filter kept items)))"
    by auto
  with lf l show ?case
    by (simp add: spec_node_def[abs_def])
qed

lemma mixed_well_listed: "well_listed 2 (sample_env mixed) (PStr ''notes'')"
  by code_simp

lemma mixed_spec_tree: "spec_tree 2 (sample_env mixed) (PStr ''notes'') = mixed_tree"
  by code_simp

lemma mixed_build: "build_tree 2 (sample_env mixed) (PStr ''notes'') = Some ([], Inr mixed_tree)"
  by code_simp

lemma mixed_kept:
  "filter kept [entry ''.obsidian'' ''notes/.obsidian'' ''dir'',
                  entry ''z.md'' ''notes/z.md'' ''file'',
                  entry ''img.png'' ''notes/img.png'' ''file'',
                  entry ''themes'' ''notes/themes'' ''submodule'',
                  entry ''sub'' ''notes/sub'' ''dir'',
                  entry ''a.md'' ''notes/a.md'' ''file'']
    = [entry ''z.md'' ''notes/z.md'' ''file'', entry ''sub'' ''notes/sub'' ''dir'',
       entry ''a.md'' ''notes/a.md'' ''file'']"
  by code_simp

text \<open>
  C6. On a path that is well listed, \<^verbatim>\<open>build_tree\<close> returns, and the tree it returns is the
  tree of the specification: at every level the children are the entries of the listing
  that are kept, in the order of the listing, with nothing else removed and nothing
  sorted. Whenever \<^verbatim>\<open>build_tree\<close> returns a tree for a path whose listing is a list, well
  listed or not, the nodes of the tree have, in the order of the listing, the paths and
  the names of the entries that are kept. And when the listing is three notes,
  \<^verbatim>\<open>build_tree\<close> returns, for any bound of one or more, exactly the three Notes in the order
  of the listing.
\<close>

theorem children_in_listing_order:
  "(well_listed n E path \<longrightarrow>
      (\<exists>msgs. build_tree n E path = Some (msgs, Inr (spec_tree n E path))))
   \<and> (build_tree n E path = Some (msgs', Inr tree) \<longrightarrow>
      snd (list_folder E path) = Inr (PList items) \<longrightarrow>
      map (\<lambda>x. (subscript x ''id'', subscript x ''name'')) tree
        = map (\<lambda>i. (subscript i ''path'', subscript i ''name'')) (filter kept items))
   \<and> (list_folder E path = (m0, Inr (PList [f1, f2, f3])) \<longrightarrow>
      md_file f1 p1 s1 \<longrightarrow> md_file f2 p2 s2 \<longrightarrow> md_file f3 p3 s3 \<longrightarrow>
      build_tree (Suc k) E path
        = Some (m0, Inr [note_node p1 (PStr s1), note_node p2 (PStr s2), note_node p3 (PStr s3)]))"
proof (intro conjI impI)
  assume "well_listed n E path"
  then show "\<exists>msgs. build_tree n E path = Some (msgs, Inr (spec_tree n E path))"
    by (rule build_tree_spec)
next
  assume b: "build_tree n E path = Some (msgs', Inr tree)"
     and l: "snd (list_folder E path) = Inr (PList items)"
  from b obtain j where n: "n = Suc j" by (cases n) auto
  from b[unfolded n] obtain m0 contents its where
    "list_folder E path = (m0, Inr contents)" "iterate contents = Inr its"
    "build_items j E its m0 [] = Some (msgs', Inr tree)"
    by (rule build_tree_SucE)
  with l have "build_items j E items m0 [] = Some (msgs', Inr tree)" by simp
  from build_items_map_filter[OF this]
  show "map (\<lambda>x. (subscript x ''id'', subscript x ''name'')) tree
        = map (\<lambda>i. (subscript i ''path'', subscript i ''name'')) (filter kept items)"
    by simp
next
  assume l: "list_folder E path = (m0, Inr (PList [f1, f2, f3]))"
     and f: "md_file f1 p1 s1" "md_file f2 p2 s2" "md_file f3 p3 s3"
  from l have "build_tree (Suc k) E path = build_items k E [f1, f2, f3] m0 []"
    by simp
  also have "\<dots> = build_items k E [] m0
      [note_node p1 (PStr s1), note_node p2 (PStr s2), note_node p3 (PStr s3)]"
    by (simp only: build_items_md_file[OF f(1)] build_items_md_file[OF f(2)]
        build_items_md_file[OF f(3)] append.simps)
  finally show "build_tree (Suc k) E path
        = Some (m0, Inr [note_node p1 (PStr s1), note_node p2 (PStr s2), note_node p3 (PStr s3)])"
    by simp
qed

text \<open>The instance: the root that lists a reserved directory, an image, a submodule, a
  directory and two notes out of alphabetical order; and the root that lists three notes
  as \<^verbatim>\<open>z.md\<close>, \<^verbatim>\<open>a.md\<close>, \<^verbatim>\<open>m.md\<close>.\<close>

theorem children_in_listing_order_witness:
  "well_listed 2 (sample_env mixed) (PStr ''notes'')
   \<and> build_tree 2 (sample_env mixed) (PStr ''notes'') = Some ([], Inr mixed_tree)
   \<and> spec_tree 2 (sample_env mixed) (PStr ''notes'') = mixed_tree
   \<and> snd (list_folder (sample_env mixed) (PStr ''notes''))
       = Inr (PList [entry ''.obsidian'' ''notes/.obsidian'' ''dir'',
                  entry ''z.md'' ''notes/z.md'' ''file'',
                  entry ''img.png'' ''notes/img.png'' ''file'',
                  entry ''themes'' ''notes/themes'' ''submodule'',
                  entry ''sub'' ''notes/sub'' ''dir'',
                  entry ''a.md'' ''notes/a.md'' ''file''])
   \<and> map (\<lambda>x. (subscript x ''id'', subscript x ''name'')) mixed_tree
       = map (\<lambda>i. (subscript i ''path'', subscript i ''name''))
           [entry ''z.md'' ''notes/z.md'' ''file'', entry ''sub'' ''notes/sub'' ''dir'',
            entry ''a.md'' ''notes/a.md'' ''file'']
   \<and> list_folder (sample_env three_notes) (PStr ''notes'')
       = ([], Inr (PList [entry ''z.md'' ''notes/z.md'' ''file'', entry ''a.md'' ''notes/a.md'' ''file'',
                  entry ''m.md'' ''notes/m.md'' ''file'']))
   \<and> md_file (entry ''z.md'' ''notes/z.md'' ''file'') (PStr ''notes/z.md'') ''z.md''
   \<and> md_file (entry ''a.md'' ''notes/a.md'' ''file'') (PStr ''notes/a.md'') ''a.md''
   \<and> md_file (entry ''m.md'' ''notes/m.md'' ''file'') (PStr ''notes/m.md'') ''m.md''
   \<and> build_tree 1 (sample_env three_notes) (PStr ''notes'') = Some ([], Inr three_notes_tree)"
proof -
  let ?M = "sample_env mixed"
  let ?items = "[entry ''.obsidian'' ''notes/.obsidian'' ''dir'',
                  entry ''z.md'' ''notes/z.md'' ''file'',
                  entry ''img.png'' ''notes/img.png'' ''file'',
                  entry ''themes'' ''notes/themes'' ''submodule'',
                  entry ''sub'' ''notes/sub'' ''dir'',
                  entry ''a.md'' ''notes/a.md'' ''file'']"
  let ?E = "sample_env three_notes"
  let ?z = "entry ''z.md'' ''notes/z.md'' ''file''"
  let ?a = "entry ''a.md'' ''notes/a.md'' ''file''"
  let ?m = "entry ''m.md'' ''notes/m.md'' ''file''"
  have lm: "snd (list_folder ?M (PStr ''notes'')) = Inr (PList ?items)"
    by code_simp
  note on_mixed = children_in_listing_order[where n = 2 and E = ?M and path = "PStr ''notes''"
      and msgs' = "[]" and tree = mixed_tree and items = ?items]
  from on_mixed mixed_well_listed
  have "\<exists>msgs. build_tree 2 ?M (PStr ''notes'')
          = Some (msgs, Inr (spec_tree 2 ?M (PStr ''notes'')))"
    by blast
  then have b: "build_tree 2 ?M (PStr ''notes'') = Some ([], Inr mixed_tree)"
    using mixed_build by (simp add: mixed_spec_tree)
  from on_mixed b lm
  have o: "map (\<lambda>x. (subscript x ''id'', subscript x ''name'')) mixed_tree
       = map (\<lambda>i. (subscript i ''path'', subscript i ''name''))
           [entry ''z.md'' ''notes/z.md'' ''file'', entry ''sub'' ''notes/sub'' ''dir'',
            entry ''a.md'' ''notes/a.md'' ''file'']"
    unfolding mixed_kept[symmetric] by blast
  have z: "md_file ?z (PStr ''notes/z.md'') ''z.md''"
    by (rule md_file_entry) (simp add: suffix_to_prefix)
  have a: "md_file ?a (PStr ''notes/a.md'') ''a.md''"
    by (rule md_file_entry) (simp add: suffix_to_prefix)
  have m: "md_file ?m (PStr ''notes/m.md'') ''m.md''"
    by (rule md_file_entry) (simp add: suffix_to_prefix)
  have one: "(1::nat) = Suc 0"
    by simp
  note on_three = children_in_listing_order[where k = 0 and E = ?E and path = "PStr ''notes''"
      and ?m0.0 = "[]" and ?f1.0 = ?z and ?f2.0 = ?a and ?f3.0 = ?m
      and ?p1.0 = "PStr ''notes/z.md''" and ?s1.0 = "''z.md''"
      and ?p2.0 = "PStr ''notes/a.md''" and ?s2.0 = "''a.md''"
      and ?p3.0 = "PStr ''notes/m.md''" and ?s3.0 = "''m.md''"]
  from on_three have t: "build_tree 1 ?E (PStr ''notes'') = Some ([], Inr three_notes_tree)"
    using three_notes_listing z a m unfolding one three_notes_tree_def by blast
  from mixed_well_listed b mixed_spec_tree lm o three_notes_listing z a m t show ?thesis
    by blast
qed

section \<open>Empty directories\<close>

lemma build_items_folder_member:
  "build_items n E items msgs acc = Some (msgs', Inr tree) \<Longrightarrow> item \<in> set items \<Longrightarrow>
   subscript item ''name'' = Inr name \<Longrightarrow> name \<noteq> PStr ''.obsidian'' \<Longrightarrow>
   subscript item ''path'' = Inr p \<Longrightarrow> subscript item ''type'' = Inr (PStr ''dir'') \<Longrightarrow>
   \<exists>m1 kids. build_tree n E p = Some (m1, Inr kids) \<and> folder_node p name kids \<in> set tree"
proof (induction items arbitrary: msgs acc)
  case Nil
  then show ?case by simp
next
  case (Cons x rest)
  show ?case
  proof (cases "x = item")
    case True
    from Cons.prems(1) show ?thesis
    proof (cases rule: build_items_ConsE)
      case (folder name' p' m1 kids)
      with True Cons.prems have eq: "name' = name" "p' = p" by simp_all
      from build_items_map_filter[OF folder(6)] obtain new where
        "tree = (acc @ [folder_node p' name' kids]) @ new" by blast
      with folder(5) eq show ?thesis by auto
    qed (use True Cons.prems in \<open>simp_all add: kept_def\<close>)
  next
    case False
    with Cons.prems(2) have m: "item \<in> set rest" by simp
    from Cons.prems(1) show ?thesis
      by (cases rule: build_items_ConsE) (use Cons.IH[OF _ m Cons.prems(3-6)] in blast)+
  qed
qed

lemma build_tree_empty_listing:
  assumes "build_tree n E p = Some (m1, Inr kids)" and "snd (list_folder E p) = Inr (PList [])"
  shows "kids = []"
proof (cases n)
  case 0
  with assms show ?thesis by simp
next
  case (Suc k)
  with assms show ?thesis by (auto split: prod.splits)
qed

text \<open>
  C7, as amended. For an entry of type \<^verbatim>\<open>dir\<close> whose name is not \<^verbatim>\<open>.obsidian\<close> and whose own
  listing is empty: when \<^verbatim>\<open>build_tree\<close> returns a tree for the path that lists the entry, the
  tree holds a Folder for the entry whose \<^verbatim>\<open>children\<close> is the empty list; and the turn of the
  loop on the entry appends that Folder and goes on.
\<close>

theorem empty_directory_is_folder:
  "(build_tree n E path = Some (msgs', Inr tree) \<longrightarrow>
      snd (list_folder E path) = Inr (PList items) \<longrightarrow> item \<in> set items \<longrightarrow>
      subscript item ''type'' = Inr (PStr ''dir'') \<longrightarrow>
      subscript item ''name'' = Inr name \<longrightarrow> name \<noteq> PStr ''.obsidian'' \<longrightarrow>
      subscript item ''path'' = Inr p \<longrightarrow> snd (list_folder E p) = Inr (PList []) \<longrightarrow>
      folder_node p name [] \<in> set tree)
   \<and> (subscript item ''type'' = Inr (PStr ''dir'') \<longrightarrow>
      subscript item ''name'' = Inr name \<longrightarrow> name \<noteq> PStr ''.obsidian'' \<longrightarrow>
      subscript item ''path'' = Inr p \<longrightarrow> list_folder E p = (m1, Inr (PList [])) \<longrightarrow>
      build_items (Suc k) E (item # rest) msgs acc
        = build_items (Suc k) E rest (msgs @ m1) (acc @ [folder_node p name []]))"
proof (intro conjI impI)
  assume b: "build_tree n E path = Some (msgs', Inr tree)"
     and l: "snd (list_folder E path) = Inr (PList items)"
     and i: "item \<in> set items"
     and ty: "subscript item ''type'' = Inr (PStr ''dir'')"
     and nm: "subscript item ''name'' = Inr name" "name \<noteq> PStr ''.obsidian''"
     and pa: "subscript item ''path'' = Inr p"
     and e: "snd (list_folder E p) = Inr (PList [])"
  from b obtain k where n: "n = Suc k" by (cases n) auto
  from b[unfolded n] obtain m0 contents its where
    "list_folder E path = (m0, Inr contents)" "iterate contents = Inr its"
    "build_items k E its m0 [] = Some (msgs', Inr tree)"
    by (rule build_tree_SucE)
  with l have "build_items k E items m0 [] = Some (msgs', Inr tree)" by simp
  from build_items_folder_member[OF this i nm pa ty] obtain m1 kids where
    s: "build_tree k E p = Some (m1, Inr kids)" and m: "folder_node p name kids \<in> set tree"
    by blast
  from build_tree_empty_listing[OF s e] m show "folder_node p name [] \<in> set tree" by simp
next
  assume "subscript item ''type'' = Inr (PStr ''dir'')" "subscript item ''name'' = Inr name"
    "name \<noteq> PStr ''.obsidian''" "subscript item ''path'' = Inr p"
    "list_folder E p = (m1, Inr (PList []))"
  then show "build_items (Suc k) E (item # rest) msgs acc
        = build_items (Suc k) E rest (msgs @ m1) (acc @ [folder_node p name []])"
    by simp
qed

text \<open>The instance: the directory \<^verbatim>\<open>empty\<close> of the vault.\<close>

theorem empty_directory_is_folder_witness:
  "build_tree 3 (sample_env vault) (PStr ''notes'') = Some ([], Inr vault_tree)
   \<and> entry ''empty'' ''notes/empty'' ''dir''
        \<in> set [entry ''.obsidian'' ''notes/.obsidian'' ''dir'',
                  entry ''a.md'' ''notes/a.md'' ''file'',
                  entry ''img.png'' ''notes/img.png'' ''file'',
                  entry ''sub'' ''notes/sub'' ''dir'',
                  entry ''empty'' ''notes/empty'' ''dir'']
   \<and> snd (list_folder (sample_env vault) (PStr ''notes/empty'')) = Inr (PList [])
   \<and> folder_node (PStr ''notes/empty'') (PStr ''empty'') [] \<in> set vault_tree
   \<and> build_items 1 (sample_env vault) [entry ''empty'' ''notes/empty'' ''dir''] [] []
        = build_items 1 (sample_env vault) [] ([] @ []) ([] @ [folder_node (PStr ''notes/empty'') (PStr ''empty'') []])"
proof -
  let ?E = "sample_env vault"
  let ?item = "entry ''empty'' ''notes/empty'' ''dir''"
  let ?items = "[entry ''.obsidian'' ''notes/.obsidian'' ''dir'',
                  entry ''a.md'' ''notes/a.md'' ''file'',
                  entry ''img.png'' ''notes/img.png'' ''file'',
                  entry ''sub'' ''notes/sub'' ''dir'', ?item]"
  have l: "snd (list_folder ?E (PStr ''notes'')) = Inr (PList ?items)"
    by (simp add: vault_listing)
  have i: "?item \<in> set ?items"
    by simp
  have ty: "subscript ?item ''type'' = Inr (PStr ''dir'')"
    by (simp add: entry_def)
  have nm: "subscript ?item ''name'' = Inr (PStr ''empty'')"
    by (simp add: entry_def)
  have no: "PStr ''empty'' \<noteq> PStr ''.obsidian''"
    by simp
  have pa: "subscript ?item ''path'' = Inr (PStr ''notes/empty'')"
    by (simp add: entry_def)
  have e: "snd (list_folder ?E (PStr ''notes/empty'')) = Inr (PList [])"
    by (simp add: vault_empty_listing)
  have one: "(1::nat) = Suc 0"
    by simp
  from empty_directory_is_folder[of 3 ?E "PStr ''notes''" "[]" vault_tree ?items ?item
      "PStr ''empty''" "PStr ''notes/empty''" "[]" 0 "[]" "[]" "[]"]
    vault_build l i ty nm no pa e vault_empty_listing
  show ?thesis
    unfolding one by blast
qed

text \<open>The claim as it was stated fails for a directory named \<^verbatim>\<open>.obsidian\<close>: its listing is empty
  and the tree has no node for it.\<close>

theorem reserved_empty_directory_omitted:
  "snd (list_folder (sample_env hidden_only) (PStr ''notes''))
     = Inr (PList [entry ''.obsidian'' ''notes/.obsidian'' ''dir''])
   \<and> subscript (entry ''.obsidian'' ''notes/.obsidian'' ''dir'') ''type'' = Inr (PStr ''dir'')
   \<and> snd (list_folder (sample_env hidden_only) (PStr ''notes/.obsidian'')) = Inr (PList [])
   \<and> build_tree 2 (sample_env hidden_only) (PStr ''notes'') = Some ([], Inr [])"
  by code_simp

section \<open>The shape of the nodes and their ids\<close>

text \<open>
  C8. When \<^verbatim>\<open>build_tree\<close> returns a tree, every node of it, at any depth, is a Folder (keys
  \<^verbatim>\<open>id\<close>, \<^verbatim>\<open>name\<close>, \<^verbatim>\<open>children\<close> and no other) or a Note (keys \<^verbatim>\<open>id\<close>, \<^verbatim>\<open>name\<close>, \<^verbatim>\<open>path\<close> and no
  other); the \<^verbatim>\<open>path\<close> of a Note is its \<^verbatim>\<open>id\<close>, and the \<^verbatim>\<open>children\<close> of a Folder are the tree of
  its \<^verbatim>\<open>id\<close>; the ids of the nodes are, in order, among the paths the listings reported for
  their entries; and when the listings report no path twice, no two nodes have the same id.
\<close>

theorem nodes_are_folders_or_notes:
  "build_tree n E path = Some (msgs', Inr tree) \<longrightarrow>
     (\<forall>x\<in>set (tree_nodes tree). well_formed_node E x)
     \<and> subseq (node_ids tree) (map Inr (reported_paths n E path))
     \<and> (distinct (reported_paths n E path) \<longrightarrow> distinct (node_ids tree))"
proof (intro impI conjI)
  assume b: "build_tree n E path = Some (msgs', Inr tree)"
  from b show "\<forall>x\<in>set (tree_nodes tree). well_formed_node E x"
  proof (rule build_tree_invariant[rotated 2])
    fix p nm kids k m
    assume "build_tree k E p = Some (m, Inr kids)"
    then show "well_formed_node E (folder_node p nm kids)"
      unfolding well_formed_node_def
      by (auto simp: is_folder_folder_node not_note_folder_node children_of_folder_node)
  next
    fix p s
    show "well_formed_node E (note_node p (PStr s))"
      unfolding well_formed_node_def
      by (simp add: is_note_note_node not_folder_note_node)
  qed
  from b show s: "subseq (node_ids tree) (map Inr (reported_paths n E path))"
    by (rule build_tree_reported)
  assume "distinct (reported_paths n E path)"
  then have "distinct (map Inr (reported_paths n E path) :: (exn + pyval) list)"
    by (simp add: distinct_map)
  with s show "distinct (node_ids tree)"
    by (rule subseq_distinct)
qed

text \<open>The instance: the vault.\<close>

theorem nodes_are_folders_or_notes_witness:
  "build_tree 3 (sample_env vault) (PStr ''notes'') = Some ([], Inr vault_tree)
   \<and> folder_node (PStr ''notes/sub'') (PStr ''sub'')
        [note_node (PStr ''notes/sub/b.md'') (PStr ''b.md'')] \<in> set (tree_nodes vault_tree)
   \<and> well_formed_node (sample_env vault) (folder_node (PStr ''notes/sub'') (PStr ''sub'')
        [note_node (PStr ''notes/sub/b.md'') (PStr ''b.md'')])
   \<and> distinct (reported_paths 3 (sample_env vault) (PStr ''notes''))
   \<and> distinct (node_ids vault_tree)
   \<and> node_ids vault_tree
       = [Inr (PStr ''notes/a.md''), Inr (PStr ''notes/sub''), Inr (PStr ''notes/sub/b.md''),
          Inr (PStr ''notes/empty'')]"
proof -
  have m: "folder_node (PStr ''notes/sub'') (PStr ''sub'')
        [note_node (PStr ''notes/sub/b.md'') (PStr ''b.md'')] \<in> set (tree_nodes vault_tree)"
    by (simp add: vault_nodes)
  have d: "distinct (reported_paths 3 (sample_env vault) (PStr ''notes''))"
    unfolding vault_reported by simp
  from nodes_are_folders_or_notes[of 3 "sample_env vault" "PStr ''notes''" "[]" vault_tree]
    vault_build m d vault_ids
  show ?thesis
    by blast
qed

section \<open>Memoized calls\<close>










end
